theory Spec2Isabelle
  imports Main "HOL-Library.AList" "HOL-Library.Product_Lexorder"
begin

section \<open>Data model (goalweaver/types.py)\<close>

text \<open>
  \<^verbatim>\<open>class Priority(int, Enum)\<close>: the four members with their integer values.
\<close>

datatype Priority = LOW | MEDIUM | HIGH | CRITICAL

fun priority_int :: "Priority \<Rightarrow> int" where
  "priority_int LOW = 1"
| "priority_int MEDIUM = 2"
| "priority_int HIGH = 3"
| "priority_int CRITICAL = 4"

datatype GoalStatus = PENDING | READY | IN_PROGRESS | BLOCKED | DONE | FAILED

text \<open>
  \<^verbatim>\<open>class Goal(BaseModel)\<close>. The field \<^verbatim>\<open>id\<close> is called \<open>goal_id\<close> here, \<open>id\<close> being
  the identity function of HOL. The values of \<^verbatim>\<open>metadata\<close> are opaque to the graph and
  the planner and are kept as strings; the two timestamps are kept as integers.
\<close>

record Goal =
  goal_id :: string
  title :: string
  description :: string
  owner_agent :: "string option"
  priority :: Priority
  status :: GoalStatus
  dependencies :: "string list"
  metadata :: "(string \<times> string) list"
  created_at :: int
  updated_at :: int

text \<open>The exceptions that the graph layer can raise, and the outcome of a call.\<close>

datatype error =
    KeyError string
  | AssertionError string
  | NetworkXUnfeasible
  | RuntimeError

datatype 'a outcome = Returned 'a | Raised error

section \<open>The directed graph underneath (networkx.DiGraph as GoalGraph uses it)\<close>

text \<open>
  \<^verbatim>\<open>self.g = nx.DiGraph()\<close>. A DiGraph keeps its nodes in a dictionary from node to
  attribute dictionary, in insertion order; GoalGraph only ever stores the attribute
  \<^verbatim>\<open>'goal'\<close>, so the attribute dictionary of a node is \<open>Some goal\<close> or \<open>None\<close> (a node
  that \<^verbatim>\<open>add_edge\<close> created and that has no \<^verbatim>\<open>'goal'\<close> entry). Edges are never removed,
  so the successor and predecessor dictionaries of every node list their entries in the
  order in which the edges were first added: both are read off one list of edges
  \<open>(u, v)\<close> in insertion order.
\<close>

record GoalGraph =
  nodes :: "(string \<times> Goal option) list"
  edges :: "(string \<times> string) list"

definition empty_graph :: GoalGraph where
  "empty_graph = \<lparr>nodes = [], edges = []\<rparr>"

definition has_node :: "GoalGraph \<Rightarrow> string \<Rightarrow> bool" where
  "has_node g n = (map_of (nodes g) n \<noteq> None)"

text \<open>
  \<^verbatim>\<open>G.add_node(n, goal=goal)\<close>: a new node is appended; for a node already present the
  attribute is overwritten in place.
\<close>

definition add_node :: "GoalGraph \<Rightarrow> string \<Rightarrow> Goal \<Rightarrow> GoalGraph" where
  "add_node g n goal = g\<lparr>nodes := AList.update n (Some goal) (nodes g)\<rparr>"

text \<open>
  \<^verbatim>\<open>G.add_edge(u, v)\<close>: an endpoint that is not yet a node is added with an empty attribute
  dictionary, \<open>u\<close> first; the edge is appended unless it is already there.
\<close>

definition ensure_node :: "GoalGraph \<Rightarrow> string \<Rightarrow> GoalGraph" where
  "ensure_node g n = (if has_node g n then g else g\<lparr>nodes := nodes g @ [(n, None)]\<rparr>)"

definition add_edge :: "GoalGraph \<Rightarrow> string \<Rightarrow> string \<Rightarrow> GoalGraph" where
  "add_edge g u v =
     (let g2 = ensure_node (ensure_node g u) v
      in g2\<lparr>edges := (if (u, v) \<in> set (edges g2) then edges g2 else edges g2 @ [(u, v)])\<rparr>)"

definition in_degree :: "GoalGraph \<Rightarrow> string \<Rightarrow> int" where
  "in_degree g v = int (length (filter (\<lambda>e. snd e = v) (edges g)))"

definition neighbors :: "GoalGraph \<Rightarrow> string \<Rightarrow> string list" where
  "neighbors g u = map snd (filter (\<lambda>e. fst e = u) (edges g))"

definition predecessors :: "GoalGraph \<Rightarrow> string \<Rightarrow> string list" where
  "predecessors g v = map fst (filter (\<lambda>e. snd e = v) (edges g))"

subsection \<open>Topological order (networkx.topological\_generations, Kahn's algorithm)\<close>

text \<open>
  \<^verbatim>\<open>indegree_map = {v: d for v, d in G.in_degree() if d > 0}\<close> and
  \<^verbatim>\<open>zero_indegree = [v for v, d in G.in_degree() if d == 0]\<close>.
\<close>

definition indegree_map :: "GoalGraph \<Rightarrow> (string \<times> int) list" where
  "indegree_map g =
     map (\<lambda>v. (v, in_degree g v)) (filter (\<lambda>v. in_degree g v > 0) (map fst (nodes g)))"

definition zero_indegree :: "GoalGraph \<Rightarrow> string list" where
  "zero_indegree g = filter (\<lambda>v. in_degree g v = 0) (map fst (nodes g))"

text \<open>
  The inner loop \<^verbatim>\<open>for child in G.neighbors(node)\<close>: the in-degree of the child is
  decremented (a missing entry is the RuntimeError "Graph changed during iteration");
  a child that reaches zero is appended to the next generation and deleted from the map.
\<close>

fun relax ::
  "(string \<times> int) list \<Rightarrow> string list \<Rightarrow> string list
     \<Rightarrow> error + ((string \<times> int) list \<times> string list)" where
  "relax im zero [] = Inr (im, zero)"
| "relax im zero (c # cs) =
     (case map_of im c of
        None \<Rightarrow> Inl RuntimeError
      | Some d \<Rightarrow>
          (if d - 1 = 0 then relax (AList.delete c im) (zero @ [c]) cs
           else relax (AList.update c (d - 1) im) zero cs))"

text \<open>The loop \<^verbatim>\<open>for node in this_generation\<close>.\<close>

fun sweep ::
  "GoalGraph \<Rightarrow> (string \<times> int) list \<Rightarrow> string list \<Rightarrow> string list
     \<Rightarrow> error + ((string \<times> int) list \<times> string list)" where
  "sweep g im zero [] = Inr (im, zero)"
| "sweep g im zero (n # ns) =
     (if \<not> has_node g n then Inl RuntimeError
      else (case relax im zero (neighbors g n) of
              Inl e \<Rightarrow> Inl e
            | Inr (im', zero') \<Rightarrow> sweep g im' zero' ns))"

lemma relax_length:
  "relax im zero cs = Inr (im', zero') \<Longrightarrow>
     length im' + length zero' \<le> length im + length zero"
proof (induction cs arbitrary: im zero)
  case Nil
  then show ?case by simp
next
  case (Cons c cs)
  show ?case
  proof (cases "map_of im c")
    case None
    with Cons.prems show ?thesis by simp
  next
    case (Some d)
    have present: "c \<in> fst ` set im"
      using Some by (meson domI domIff map_of_eq_None_iff)
    show ?thesis
    proof (cases "d - 1 = 0")
      case True
      from Some have "(c, d) \<in> set im"
        by (rule map_of_SomeD)
      then have "length (AList.delete c im) < length im"
        unfolding AList.delete_eq by (rule length_filter_less) simp
      moreover have "length im' + length zero'
          \<le> length (AList.delete c im) + length (zero @ [c])"
        using Cons.prems Some True by (intro Cons.IH) simp
      ultimately show ?thesis by simp
    next
      case False
      have "length (AList.update c (d - 1) im) = length im"
        using present by (induction im) auto
      moreover have "length im' + length zero'
          \<le> length (AList.update c (d - 1) im) + length zero"
        using Cons.prems Some False by (intro Cons.IH) simp
      ultimately show ?thesis by simp
    qed
  qed
qed

lemma sweep_length:
  "sweep g im zero ns = Inr (im', zero') \<Longrightarrow>
     length im' + length zero' \<le> length im + length zero"
proof (induction ns arbitrary: im zero)
  case Nil
  then show ?case by simp
next
  case (Cons n ns)
  from Cons.prems obtain im1 zero1 where
    r: "relax im zero (neighbors g n) = Inr (im1, zero1)" and
    s: "sweep g im1 zero1 ns = Inr (im', zero')"
    by (auto split: if_splits sum.splits)
  from relax_length [OF r] Cons.IH [OF s] show ?case by simp
qed

text \<open>
  The generator: \<^verbatim>\<open>while zero_indegree:\<close> sweeps one generation and then yields it;
  when the loop ends with a non-empty in-degree map, NetworkXUnfeasible is raised. The
  result is the list of the nodes yielded and the exception that ended the iteration,
  if any. \<^verbatim>\<open>topological_sort\<close> yields the generations one after the other.
\<close>

function generations ::
  "GoalGraph \<Rightarrow> (string \<times> int) list \<Rightarrow> string list \<Rightarrow> string list \<times> error option" where
  "generations g im zero =
     (if zero = [] then ([], if im = [] then None else Some NetworkXUnfeasible)
      else (case sweep g im [] zero of
              Inl e \<Rightarrow> ([], Some e)
            | Inr (im', zero') \<Rightarrow>
                (case generations g im' zero' of (ys, r) \<Rightarrow> (zero @ ys, r))))"
  by pat_completeness auto
termination
proof (relation "measure (\<lambda>(g, im, zero). length im + (if zero = [] then 0 else 1))")
  show "wf (measure (\<lambda>(g, im, zero). length im + (if zero = [] then 0 else 1)))"
    by simp
next
  fix g :: GoalGraph and im :: "(string \<times> int) list" and zero :: "string list"
    and x im' zero'
  assume "zero \<noteq> []" and "sweep g im [] zero = Inr x" and "(im', zero') = x"
  then have "length im' + length zero' \<le> length im"
    using sweep_length [of g im "[]" zero im' zero'] by simp
  then show "((g, im', zero'), (g, im, zero))
      \<in> measure (\<lambda>(g, im, zero). length im + (if zero = [] then 0 else 1))"
    using \<open>zero \<noteq> []\<close> by (cases zero') auto
qed

declare generations.simps [simp del]

definition topological_sort :: "GoalGraph \<Rightarrow> string list \<times> error option" where
  "topological_sort g = generations g (indegree_map g) (zero_indegree g)"

text \<open>
  \<^verbatim>\<open>has_cycle\<close> exhausts the iterator and catches NetworkXUnfeasible only;
  \<^verbatim>\<open>is_directed_acyclic_graph(G)\<close> is \<^verbatim>\<open>G.is_directed() and not has_cycle(G)\<close>.
\<close>

definition has_cycle :: "GoalGraph \<Rightarrow> error + bool" where
  "has_cycle g =
     (case snd (topological_sort g) of
        None \<Rightarrow> Inr False
      | Some NetworkXUnfeasible \<Rightarrow> Inr True
      | Some e \<Rightarrow> Inl e)"

definition is_directed_acyclic_graph :: "GoalGraph \<Rightarrow> error + bool" where
  "is_directed_acyclic_graph g =
     (case has_cycle g of Inl e \<Rightarrow> Inl e | Inr c \<Rightarrow> Inr (\<not> c))"

section \<open>GoalGraph (goalweaver/goal\_graph.py)\<close>

text \<open>
  Every method takes the graph and returns the graph it leaves behind, also when it
  raises: a method that raises after it has written keeps what it wrote.
\<close>

definition add_goal :: "GoalGraph \<Rightarrow> Goal \<Rightarrow> GoalGraph" where
  "add_goal g goal = add_node g (goal_id goal) goal"

definition add_dependency :: "GoalGraph \<Rightarrow> string \<Rightarrow> string \<Rightarrow> unit outcome \<times> GoalGraph" where
  "add_dependency g gid depends_on_id =
     (let g' = add_edge g depends_on_id gid
      in (case is_directed_acyclic_graph g' of
            Inl e \<Rightarrow> (Raised e, g')
          | Inr True \<Rightarrow> (Returned (), g')
          | Inr False \<Rightarrow> (Raised (AssertionError ''Dependencies must form a DAG''), g')))"

text \<open>
  \<^verbatim>\<open>get\<close>: \<^verbatim>\<open>self.g.nodes[goal_id]["goal"]\<close>. Both subscripts can raise KeyError: the
  first for an id that is no node, the second for a node without a \<^verbatim>\<open>'goal'\<close> entry.
\<close>

definition get :: "GoalGraph \<Rightarrow> string \<Rightarrow> error + Goal" where
  "get g n =
     (case map_of (nodes g) n of
        None \<Rightarrow> Inl (KeyError n)
      | Some None \<Rightarrow> Inl (KeyError ''goal'')
      | Some (Some goal) \<Rightarrow> Inr goal)"

text \<open>
  The assignment \<^verbatim>\<open>goal.status = s\<close> on the Goal object that node \<open>n\<close> holds. A Goal
  object is held by one node only (it is stored under its own id), so the assignment
  changes that node's entry and nothing else.
\<close>

definition assign_status :: "GoalGraph \<Rightarrow> string \<Rightarrow> Goal \<Rightarrow> GoalStatus \<Rightarrow> GoalGraph" where
  "assign_status g n goal s = g\<lparr>nodes := AList.update n (Some (goal\<lparr>status := s\<rparr>)) (nodes g)\<rparr>"

definition set_status :: "GoalGraph \<Rightarrow> string \<Rightarrow> GoalStatus \<Rightarrow> unit outcome \<times> GoalGraph" where
  "set_status g n s =
     (case get g n of
        Inl e \<Rightarrow> (Raised e, g)
      | Inr goal \<Rightarrow> (Returned (), assign_status g n goal s))"


definition mark_done :: "GoalGraph \<Rightarrow> string \<Rightarrow> bool \<Rightarrow> unit outcome \<times> GoalGraph" where
  "mark_done g n success = set_status g n (if success then DONE else FAILED)"

text \<open>
  \<^verbatim>\<open>all(self.g.nodes[p]["goal"].status == GoalStatus.DONE for p in preds)\<close>: the generator
  is consumed up to the first predecessor that is not DONE, so a predecessor that has
  no goal raises KeyError only when every predecessor before it is DONE.
\<close>

fun all_done :: "GoalGraph \<Rightarrow> string list \<Rightarrow> error + bool" where
  "all_done g [] = Inr True"
| "all_done g (p # ps) =
     (case get g p of
        Inl e \<Rightarrow> Inl e
      | Inr goal \<Rightarrow> (if status goal = DONE then all_done g ps else Inr False))"

text \<open>The body of the loop of \<^verbatim>\<open>recompute_readiness\<close>, for the node \<open>n\<close>.\<close>

definition recompute_step :: "GoalGraph \<Rightarrow> string \<Rightarrow> error + GoalGraph" where
  "recompute_step g n =
     (case get g n of
        Inl e \<Rightarrow> Inl e
      | Inr goal \<Rightarrow>
          (if status goal \<in> {IN_PROGRESS, DONE, FAILED} then Inr g
           else (case all_done g (predecessors g n) of
                   Inl e \<Rightarrow> Inl e
                 | Inr True \<Rightarrow> Inr (assign_status g n goal READY)
                 | Inr False \<Rightarrow> Inr (assign_status g n goal PENDING))))"

text \<open>
  The loop over the nodes that the iterator yields. An exception raised in the body
  ends the loop and leaves the statuses already written.
\<close>

fun recompute_loop :: "GoalGraph \<Rightarrow> string list \<Rightarrow> error option \<times> GoalGraph" where
  "recompute_loop g [] = (None, g)"
| "recompute_loop g (n # ns) =
     (case recompute_step g n of
        Inl e \<Rightarrow> (Some e, g)
      | Inr g' \<Rightarrow> recompute_loop g' ns)"

text \<open>
  \<^verbatim>\<open>recompute_readiness\<close>: the iterator yields the nodes of one generation after the
  other and raises (NetworkXUnfeasible on a cycle) only after the nodes it could yield
  have been visited.
\<close>

definition recompute_readiness :: "GoalGraph \<Rightarrow> unit outcome \<times> GoalGraph" where
  "recompute_readiness g =
     (case topological_sort g of
        (order, stop) \<Rightarrow>
          (case recompute_loop g order of
             (Some e, g') \<Rightarrow> (Raised e, g')
           | (None, g') \<Rightarrow>
               (case stop of Some e \<Rightarrow> (Raised e, g') | None \<Rightarrow> (Returned (), g'))))"

text \<open>
  \<^verbatim>\<open>ready_goals\<close>: the same pass, which also collects the goals it sets to READY. The
  list holds the Goal objects themselves; no later step of the pass writes to a goal
  already collected, so the list is given by value.
\<close>

definition ready_step :: "GoalGraph \<Rightarrow> string \<Rightarrow> error + (GoalGraph \<times> Goal option)" where
  "ready_step g n =
     (case get g n of
        Inl e \<Rightarrow> Inl e
      | Inr goal \<Rightarrow>
          (if status goal \<in> {DONE, FAILED, IN_PROGRESS} then Inr (g, None)
           else (case all_done g (predecessors g n) of
                   Inl e \<Rightarrow> Inl e
                 | Inr True \<Rightarrow> Inr (assign_status g n goal READY, Some (goal\<lparr>status := READY\<rparr>))
                 | Inr False \<Rightarrow> Inr (assign_status g n goal PENDING, None))))"

fun ready_loop ::
  "GoalGraph \<Rightarrow> Goal list \<Rightarrow> string list \<Rightarrow> error option \<times> Goal list \<times> GoalGraph" where
  "ready_loop g ready [] = (None, ready, g)"
| "ready_loop g ready (n # ns) =
     (case ready_step g n of
        Inl e \<Rightarrow> (Some e, ready, g)
      | Inr (g', None) \<Rightarrow> ready_loop g' ready ns
      | Inr (g', Some goal) \<Rightarrow> ready_loop g' (ready @ [goal]) ns)"

definition ready_goals :: "GoalGraph \<Rightarrow> Goal list outcome \<times> GoalGraph" where
  "ready_goals g =
     (case topological_sort g of
        (order, stop) \<Rightarrow>
          (case ready_loop g [] order of
             (Some e, ready, g') \<Rightarrow> (Raised e, g')
           | (None, ready, g') \<Rightarrow>
               (case stop of Some e \<Rightarrow> (Raised e, g') | None \<Rightarrow> (Returned ready, g'))))"

section \<open>AdaptivePlanner (goalweaver/planner.py)\<close>

text \<open>The sort key \<^verbatim>\<open>(-int(g.priority), len(g.dependencies))\<close>, compared as a tuple.\<close>

definition batch_key :: "Goal \<Rightarrow> int \<times> int" where
  "batch_key goal = (- priority_int (priority goal), int (length (dependencies goal)))"

text \<open>
  The slice \<^verbatim>\<open>ready[:k]\<close>: the first \<open>k\<close> elements for \<open>k \<ge> 0\<close>, all but the last
  \<open>-k\<close> elements for a negative \<open>k\<close>.
\<close>

definition slice_to :: "'a list \<Rightarrow> int \<Rightarrow> 'a list" where
  "slice_to xs k = (if 0 \<le> k then take (nat k) xs else take (nat (int (length xs) + k)) xs)"

text \<open>\<^verbatim>\<open>next_batch\<close>: \<^verbatim>\<open>list.sort\<close> is stable, as \<open>sort_key\<close> is.\<close>

definition next_batch :: "GoalGraph \<Rightarrow> int \<Rightarrow> Goal list outcome \<times> GoalGraph" where
  "next_batch g k =
     (case ready_goals g of
        (Raised e, g') \<Rightarrow> (Raised e, g')
      | (Returned ready, g') \<Rightarrow> (Returned (slice_to (sort_key batch_key ready) k), g'))"

section \<open>SharedMemory (goalweaver/memory.py)\<close>

text \<open>
  The values that the store keeps in memory and the documents it reads and writes are
  JSON values. A number is an integer or a floating-point number; a finite
  floating-point number is \<open>m \<times> 2\<^sup>e\<close>, and \<^verbatim>\<open>json\<close> also reads and writes
  \<^verbatim>\<open>Infinity\<close>, \<^verbatim>\<open>-Infinity\<close> and \<^verbatim>\<open>NaN\<close>. A dictionary is the list of its entries in
  insertion order; the keys of a dictionary are distinct.
\<close>

datatype pyfloat = Finite int int | Infinity bool | NaN

datatype json =
    JNull
  | JBool bool
  | JInt int
  | JFloat pyfloat
  | JStr string
  | JList "json list"
  | JDict "(string \<times> json) list"

text \<open>
  What \<^verbatim>\<open>self._state_path\<close> holds: no file, a file that \<^verbatim>\<open>json.load\<close> cannot read, or a
  document.
\<close>

datatype disk_file = Missing | Unreadable | Document json

text \<open>
  The exceptions that the store can raise.
\<close>

datatype py_error = AttributeError | TypeError | ValueError | OverflowError | OSError

text \<open>
  What a call of the store meets outside \<^verbatim>\<open>memory.py\<close>. \<^verbatim>\<open>int(s)\<close> for a string \<open>s\<close>
  and \<^verbatim>\<open>dict(xs)\<close> for a non-empty list \<open>xs\<close> are not spelled out: they are parameters.
  So is whether writing the temporary file and replacing the state file succeeds; when
  it does not, OSError leaves \<^verbatim>\<open>_persist\<close> and the state file is as before. Every
  statement about the store holds whatever the three are.
\<close>

record environment =
  int_of_str :: "string \<Rightarrow> py_error + int"
  dict_of_list :: "json list \<Rightarrow> py_error + (string \<times> json) list"
  write_ok :: bool

type_synonym memory = "(string \<times> json) list"

text \<open>
  \<^verbatim>\<open>d.get(k, dflt)\<close>.
\<close>

definition dict_get :: "(string \<times> json) list \<Rightarrow> string \<Rightarrow> json \<Rightarrow> json" where
  "dict_get d k dflt = (case map_of d k of None \<Rightarrow> dflt | Some v \<Rightarrow> v)"

text \<open>
  \<^verbatim>\<open>list(v)\<close>, \<^verbatim>\<open>dict(v)\<close> and \<^verbatim>\<open>int(v)\<close> on a JSON value: a list, a dictionary or an
  integer is copied; a string is iterated by character and a dictionary by key; \<^verbatim>\<open>int\<close>
  of a floating-point number cuts off the fraction; a value that cannot be converted
  raises.
\<close>

definition float_trunc :: "int \<Rightarrow> int \<Rightarrow> int" where
  "float_trunc m e =
     (if 0 \<le> e then m * 2 ^ nat e
      else if 0 \<le> m then m div 2 ^ nat (- e)
      else - ((- m) div 2 ^ nat (- e)))"

fun py_list :: "json \<Rightarrow> py_error + json list" where
  "py_list (JList xs) = Inr xs"
| "py_list (JStr s) = Inr (map (\<lambda>c. JStr [c]) s)"
| "py_list (JDict kvs) = Inr (map (\<lambda>kv. JStr (fst kv)) kvs)"
| "py_list v = Inl TypeError"

fun py_dict :: "environment \<Rightarrow> json \<Rightarrow> py_error + (string \<times> json) list" where
  "py_dict py (JDict kvs) = Inr kvs"
| "py_dict py (JList xs) = (if xs = [] then Inr [] else dict_of_list py xs)"
| "py_dict py (JStr s) = (if s = [] then Inr [] else Inl ValueError)"
| "py_dict py v = Inl TypeError"

fun py_int :: "environment \<Rightarrow> json \<Rightarrow> py_error + int" where
  "py_int py (JInt n) = Inr n"
| "py_int py (JBool b) = Inr (if b then 1 else 0)"
| "py_int py (JStr s) = int_of_str py s"
| "py_int py (JFloat (Finite m e)) = Inr (float_trunc m e)"
| "py_int py (JFloat (Infinity positive)) = Inl OverflowError"
| "py_int py (JFloat NaN) = Inl ValueError"
| "py_int py v = Inl TypeError"

text \<open>
  \<^verbatim>\<open>self._state\<close> as \<^verbatim>\<open>__init__\<close> sets it, and \<^verbatim>\<open>_load_from_disk\<close>: of a document that is
  a dictionary, the three namespaces are adopted when they have the right type; anything
  else on disk leaves the defaults.
\<close>

definition new_state :: memory where
  "new_state = [(''logs'', JList []), (''artifacts'', JDict []), (''metrics'', JDict [])]"

definition load_from_disk :: "memory \<Rightarrow> disk_file \<Rightarrow> memory" where
  "load_from_disk st f =
     (case f of
        Document (JDict on_disk) \<Rightarrow>
          (let st1 = (case map_of on_disk ''logs'' of
                        Some (JList xs) \<Rightarrow> AList.update ''logs'' (JList xs) st | _ \<Rightarrow> st);
               st2 = (case map_of on_disk ''artifacts'' of
                        Some (JDict kvs) \<Rightarrow> AList.update ''artifacts'' (JDict kvs) st1 | _ \<Rightarrow> st1)
           in (case map_of on_disk ''metrics'' of
                 Some (JDict kvs) \<Rightarrow> AList.update ''metrics'' (JDict kvs) st2 | _ \<Rightarrow> st2))
      | _ \<Rightarrow> st)"

text \<open>
  \<^verbatim>\<open>_persist\<close>: the document on disk, when it is a dictionary, is the start of
  \<^verbatim>\<open>merged\<close>; the three namespaces are then assigned from the state, in the order logs,
  artifacts, metrics, and the result is written to a temporary file that then replaces
  the state file. A conversion that raises does so before anything is written, and the
  exception leaves the method, as does the OSError of a failed write. The result is the
  exception, if any, and the file afterwards.
\<close>

definition persist :: "environment \<Rightarrow> memory \<Rightarrow> disk_file \<Rightarrow> py_error option \<times> disk_file" where
  "persist py st f =
     (let merged = (case f of Document (JDict current) \<Rightarrow> current | _ \<Rightarrow> [])
      in (case py_list (dict_get st ''logs'' (JList [])) of
            Inl e \<Rightarrow> (Some e, f)
          | Inr logs \<Rightarrow>
              (case py_dict py (dict_get st ''artifacts'' (JDict [])) of
                 Inl e \<Rightarrow> (Some e, f)
               | Inr artifacts \<Rightarrow>
                   (case py_dict py (dict_get st ''metrics'' (JDict [])) of
                      Inl e \<Rightarrow> (Some e, f)
                    | Inr metrics \<Rightarrow>
                        (if write_ok py
                         then (None,
                               Document (JDict
                                 (AList.update ''metrics'' (JDict metrics)
                                   (AList.update ''artifacts'' (JDict artifacts)
                                     (AList.update ''logs'' (JList logs) merged)))))
                         else (Some OSError, f))))))"

text \<open>
  The methods of the store. Each runs under the one lock of the store, so calls do not
  interleave. A method takes the state and the file and gives the exception raised, if
  any, the state and the file it leaves: a method that raises in \<^verbatim>\<open>_persist\<close> has
  already changed the state. \<open>persist_after\<close> is the tail \<^verbatim>\<open>await self._persist()\<close> that
  the four mutating methods share; \<^verbatim>\<open>set\<close> is called \<open>set_memory\<close> here.
\<close>

definition persist_after :: "environment \<Rightarrow> memory \<Rightarrow> disk_file \<Rightarrow> py_error option \<times> memory \<times> disk_file" where
  "persist_after py st f = (case persist py st f of (e, f') \<Rightarrow> (e, st, f'))"

definition set_memory ::
  "environment \<Rightarrow> memory \<Rightarrow> disk_file \<Rightarrow> string \<Rightarrow> json \<Rightarrow> py_error option \<times> memory \<times> disk_file" where
  "set_memory py st f key v = persist_after py (AList.update key v st) f"

text \<open>
  \<^verbatim>\<open>self._state.setdefault("logs", []).append(item)\<close>: a value under \<^verbatim>\<open>logs\<close> that is
  not a list has no \<^verbatim>\<open>append\<close>.
\<close>

definition append_log ::
  "environment \<Rightarrow> memory \<Rightarrow> disk_file \<Rightarrow> json \<Rightarrow> py_error option \<times> memory \<times> disk_file" where
  "append_log py st f item =
     (case map_of st ''logs'' of
        None \<Rightarrow> persist_after py (AList.update ''logs'' (JList [item]) st) f
      | Some (JList xs) \<Rightarrow> persist_after py (AList.update ''logs'' (JList (xs @ [item])) st) f
      | Some v \<Rightarrow> (Some AttributeError, st, f))"

text \<open>
  \<^verbatim>\<open>self._state.setdefault("artifacts", {})[name] = value\<close>: a value under
  \<^verbatim>\<open>artifacts\<close> that is not a dictionary does not take the assignment.
\<close>

definition record_artifact ::
  "environment \<Rightarrow> memory \<Rightarrow> disk_file \<Rightarrow> string \<Rightarrow> json \<Rightarrow> py_error option \<times> memory \<times> disk_file" where
  "record_artifact py st f name v =
     (case map_of st ''artifacts'' of
        None \<Rightarrow> persist_after py (AList.update ''artifacts'' (JDict [(name, v)]) st) f
      | Some (JDict kvs) \<Rightarrow>
          persist_after py (AList.update ''artifacts'' (JDict (AList.update name v kvs)) st) f
      | Some w \<Rightarrow> (Some TypeError, st, f))"

text \<open>
  \<^verbatim>\<open>m = self._state.setdefault("metrics", {})\<close> and
  \<^verbatim>\<open>m[name] = int(m.get(name, 0)) + inc\<close>: a value under \<^verbatim>\<open>metrics\<close> that is not a
  dictionary has no \<^verbatim>\<open>get\<close>.
\<close>

definition bump_metric ::
  "environment \<Rightarrow> memory \<Rightarrow> disk_file \<Rightarrow> string \<Rightarrow> int \<Rightarrow> py_error option \<times> memory \<times> disk_file" where
  "bump_metric py st f name inc =
     (case map_of st ''metrics'' of
        None \<Rightarrow> persist_after py (AList.update ''metrics'' (JDict [(name, JInt (0 + inc))]) st) f
      | Some (JDict m) \<Rightarrow>
          (case py_int py (dict_get m name (JInt 0)) of
             Inl e \<Rightarrow> (Some e, st, f)
           | Inr n \<Rightarrow>
               persist_after py
                 (AList.update ''metrics'' (JDict (AList.update name (JInt (n + inc)) m)) st) f)
      | Some v \<Rightarrow> (Some AttributeError, st, f))"

text \<open>
  The four mutating methods as one operation, and a sequence of calls, each in its own
  environment and on the state and the file that the call before left (also when that
  call raised).
\<close>

datatype store_op =
    Set string json
  | AppendLog json
  | RecordArtifact string json
  | BumpMetric string int

fun run_op :: "environment \<Rightarrow> memory \<Rightarrow> disk_file \<Rightarrow> store_op \<Rightarrow> py_error option \<times> memory \<times> disk_file" where
  "run_op py st f (Set key v) = set_memory py st f key v"
| "run_op py st f (AppendLog item) = append_log py st f item"
| "run_op py st f (RecordArtifact name v) = record_artifact py st f name v"
| "run_op py st f (BumpMetric name inc) = bump_metric py st f name inc"


text \<open>
  \<^verbatim>\<open>SharedMemory(state_path=...)\<close>: the state of a store created on the file \<open>f\<close>.
\<close>

definition new_memory :: "disk_file \<Rightarrow> memory" where
  "new_memory f = load_from_disk new_state f"

section \<open>Example values\<close>

text \<open>
  \<^verbatim>\<open>Goal(id=gid, title=ttl)\<close> with the defaults of the other fields (the timestamps, which
  default to the time of the call, are set to 0).
\<close>

definition new_goal :: "string \<Rightarrow> string \<Rightarrow> Goal" where
  "new_goal gid ttl =
     \<lparr>goal_id = gid, title = ttl, description = [], owner_agent = None,
      priority = MEDIUM, status = PENDING, dependencies = [], metadata = [],
      created_at = 0, updated_at = 0\<rparr>"

text \<open>The graph with the one goal \<open>a\<close>, and the graph of the goals \<open>a\<close> and \<open>b\<close> where \<open>b\<close> depends on \<open>a\<close>.\<close>

definition graph_a :: GoalGraph where
  "graph_a = add_goal empty_graph (new_goal ''a'' ''A'')"

definition graph_ab :: GoalGraph where
  "graph_ab = snd (add_dependency (add_goal graph_a (new_goal ''b'' ''B'')) ''b'' ''a'')"

text \<open>The graph with the one goal \<open>a\<close> after \<^verbatim>\<open>mark_done('a', True)\<close>.\<close>

definition graph_a_done :: GoalGraph where
  "graph_a_done = snd (mark_done graph_a ''a'' True)"

text \<open>
  Graphs with a node that was never added as a goal: the goal \<open>c\<close> after a first
  readiness pass, then with a dependency on the unknown id \<open>ghost\<close>; and the goal \<open>a\<close>
  with a dependency between the unknown ids \<open>x\<close> and \<open>y\<close>.
\<close>

definition graph_c_ready :: GoalGraph where
  "graph_c_ready = snd (recompute_readiness (add_goal empty_graph (new_goal ''c'' ''C'')))"

definition graph_c_ghost :: GoalGraph where
  "graph_c_ghost = snd (add_dependency graph_c_ready ''c'' ''ghost'')"

definition graph_a_xy :: GoalGraph where
  "graph_a_xy = snd (add_dependency graph_a ''y'' ''x'')"



text \<open>
  An environment in which the write succeeds and the two conversions raise; the
  examples do not reach the conversions. Then a state file that holds a \<^verbatim>\<open>goals\<close> entry written by
  the orchestrator, and a state with the counter \<open>hits\<close> at 5.
\<close>

definition plain_environment :: environment where
  "plain_environment =
     \<lparr>int_of_str = (\<lambda>s. Inl ValueError), dict_of_list = (\<lambda>xs. Inl TypeError),
      write_ok = True\<rparr>"

definition file_with_goals :: disk_file where
  "file_with_goals =
     Document (JDict [(''goals'', JList [JDict [(''id'', JStr ''g1''), (''status'', JStr ''ready'')]]),
                      (''logs'', JList [])])"


section \<open>Notions used in the statements\<close>

text \<open>
  What the readiness pass reads of a dependency: whether its goal is DONE, or the
  KeyError of the lookup.
\<close>

definition done_view :: "GoalGraph \<Rightarrow> string \<Rightarrow> error + bool" where
  "done_view g p = (case get g p of Inl e \<Rightarrow> Inl e | Inr goal \<Rightarrow> Inr (status goal = DONE))"

text \<open>
  A populated graph: every node carries a goal, and every edge joins two nodes (which
  DiGraph guarantees). \<^verbatim>\<open>add_goal\<close> alone builds such graphs; \<^verbatim>\<open>add_dependency\<close> on an id
  that was never added leaves a node without goal behind.
\<close>

definition goals_present :: "GoalGraph \<Rightarrow> bool" where
  "goals_present g =
     (list_all (\<lambda>(n, a). a \<noteq> None) (nodes g)
      \<and> list_all (\<lambda>(u, v). has_node g u \<and> has_node g v) (edges g))"

text \<open>
  The readiness rule in the words of the specification: a goal that is IN\_PROGRESS, DONE
  or FAILED keeps its status; any other goal is READY when every dependency (every
  predecessor in the graph) is DONE, and PENDING otherwise.
\<close>

definition dependency_done :: "GoalGraph \<Rightarrow> string \<Rightarrow> bool" where
  "dependency_done g p = (case get g p of Inl e \<Rightarrow> False | Inr goal \<Rightarrow> status goal = DONE)"

definition readiness :: "GoalGraph \<Rightarrow> string \<Rightarrow> Goal \<Rightarrow> GoalStatus" where
  "readiness g n goal =
     (if status goal \<in> {IN_PROGRESS, DONE, FAILED} then status goal
      else if list_all (dependency_done g) (predecessors g n) then READY
      else PENDING)"


text \<open>
  The top-level entries of the document on disk that the store does not own, in their
  order; a file that holds no dictionary has none.
\<close>

definition foreign_keys :: "disk_file \<Rightarrow> (string \<times> json) list" where
  "foreign_keys f =
     (case f of
        Document (JDict kvs) \<Rightarrow>
          filter (\<lambda>kv. fst kv \<noteq> ''logs'' \<and> fst kv \<noteq> ''artifacts'' \<and> fst kv \<noteq> ''metrics'') kvs
      | _ \<Rightarrow> [])"



section \<open>Properties of the graph operations\<close>

subsection \<open>What the topological iterator can raise\<close>

lemma relax_error: "relax im zero cs = Inl e \<Longrightarrow> e = RuntimeError"
  by (induction cs arbitrary: im zero) (auto split: option.splits if_splits)

lemma sweep_error: "sweep g im zero ns = Inl e \<Longrightarrow> e = RuntimeError"
  by (induction ns arbitrary: im zero) (auto split: sum.splits if_splits dest: relax_error)

lemma generations_empty:
  "generations g im [] = ([], if im = [] then None else Some NetworkXUnfeasible)"
  by (simp add: generations.simps)

lemma generations_raise:
  "zero \<noteq> [] \<Longrightarrow> sweep g im [] zero = Inl e \<Longrightarrow> generations g im zero = ([], Some e)"
  by (simp add: generations.simps)

lemma generations_yield:
  "zero \<noteq> [] \<Longrightarrow> sweep g im [] zero = Inr (im', zero') \<Longrightarrow>
     generations g im zero =
       (zero @ fst (generations g im' zero'), snd (generations g im' zero'))"
  by (simp add: generations.simps [of g im zero] split: prod.splits)

lemma generations_stop:
  "snd (generations g im zero) \<in> {None, Some NetworkXUnfeasible, Some RuntimeError}"
proof (induction g im zero rule: generations.induct)
  case (1 g im zero)
  show ?case
  proof (cases "zero = []")
    case True
    then show ?thesis by (simp add: generations_empty)
  next
    case False
    show ?thesis
    proof (cases "sweep g im [] zero")
      case (Inl e)
      then have "e = RuntimeError" by (rule sweep_error)
      with Inl False show ?thesis by (simp add: generations_raise)
    next
      case (Inr p)
      obtain im' zero' where p: "p = (im', zero')" by (cases p)
      from "1.IH" [OF False Inr p [symmetric]] Inr p False show ?thesis
        by (simp add: generations_yield)
    qed
  qed
qed

lemma is_dag_cases:
  "is_directed_acyclic_graph g \<in> {Inr True, Inr False, Inl RuntimeError}"
  using generations_stop [of g "indegree_map g" "zero_indegree g"]
  by (auto simp: is_directed_acyclic_graph_def has_cycle_def topological_sort_def)

subsection \<open>add\_goal and add\_dependency\<close>

lemma nodes_add_edge:
  "nodes (add_edge g u v) =
     nodes g @ (if has_node g u then [] else [(u, None)])
             @ (if has_node g v \<or> v = u then [] else [(v, None)])"
  by (auto simp: add_edge_def ensure_node_def has_node_def Let_def)

lemma edges_add_edge:
  "edges (add_edge g u v) = (if (u, v) \<in> set (edges g) then edges g else edges g @ [(u, v)])"
  by (simp add: add_edge_def ensure_node_def Let_def)

lemma snd_add_dependency: "snd (add_dependency g a b) = add_edge g b a"
  by (simp add: add_dependency_def Let_def split: sum.splits bool.splits)

text \<open>
  C1. \<^verbatim>\<open>add_dependency\<close> adds the edge before it checks: on \<open>graph_ab\<close>, where \<open>b\<close> depends
  on \<open>a\<close>, the call that makes \<open>a\<close> depend on \<open>b\<close> raises the AssertionError of the DAG
  check and leaves the edge \<open>b \<rightarrow> a\<close> in the graph, which is then cyclic and no longer the
  graph of before the call.
\<close>

theorem add_dependency_cycle_keeps_edge:
  "add_dependency graph_ab ''a'' ''b'' =
     (Raised (AssertionError ''Dependencies must form a DAG''),
      graph_ab\<lparr>edges := [(''a'', ''b''), (''b'', ''a'')]\<rparr>)
   \<and> edges graph_ab = [(''a'', ''b'')]
   \<and> snd (add_dependency graph_ab ''a'' ''b'') \<noteq> graph_ab
   \<and> is_directed_acyclic_graph (snd (add_dependency graph_ab ''a'' ''b'')) = Inr False"
  by code_simp

text \<open>
  C5 as the code has it. \<^verbatim>\<open>add_goal\<close> cannot fail. When the id of the goal is already a
  node, the goal stored under that id is replaced by the new goal; the node ids and
  their order, the goal of every other node and the edges stay as they are.
\<close>

theorem add_goal_replaces:
  assumes "has_node g (goal_id goal)"
  shows "get (add_goal g goal) (goal_id goal) = Inr goal
    \<and> map fst (nodes (add_goal g goal)) = map fst (nodes g)
    \<and> (\<forall>n. n \<noteq> goal_id goal \<longrightarrow> map_of (nodes (add_goal g goal)) n = map_of (nodes g) n)
    \<and> edges (add_goal g goal) = edges g"
proof -
  from assms have "goal_id goal \<in> set (map fst (nodes g))"
    by (simp add: has_node_def map_of_eq_None_iff)
  then show ?thesis
    by (simp add: add_goal_def add_node_def get_def AList.update_conv' AList.update_keys)
qed

theorem add_goal_replaces_witness:
  "has_node graph_a (goal_id (new_goal ''a'' ''B''))
   \<and> get (add_goal graph_a (new_goal ''a'' ''B'')) (goal_id (new_goal ''a'' ''B''))
       = Inr (new_goal ''a'' ''B'')
   \<and> edges (add_goal graph_a (new_goal ''a'' ''B'')) = edges graph_a"
proof -
  have h: "has_node graph_a (goal_id (new_goal ''a'' ''B''))" by code_simp
  from add_goal_replaces [OF h] h show ?thesis by simp
qed

text \<open>
  C5 as the specification states it fails: \<open>graph_a\<close> holds the goal titled \<open>A\<close> under the
  id \<open>a\<close>; adding a goal titled \<open>B\<close> with the same id returns a graph in which \<open>B\<close> is
  stored under \<open>a\<close>.
\<close>

theorem add_goal_duplicate_counterexample:
  "has_node graph_a ''a''
   \<and> get graph_a ''a'' = Inr (new_goal ''a'' ''A'')
   \<and> goal_id (new_goal ''a'' ''B'') = ''a''
   \<and> get (add_goal graph_a (new_goal ''a'' ''B'')) ''a'' = Inr (new_goal ''a'' ''B'')
   \<and> new_goal ''a'' ''B'' \<noteq> new_goal ''a'' ''A''"
  by code_simp

text \<open>
  C6. \<^verbatim>\<open>add_dependency\<close> does not look whether the two ids are nodes: \<^verbatim>\<open>add_edge\<close>
  creates every absent id as a node without \<^verbatim>\<open>'goal'\<close> entry and the call returns. On the
  empty graph the call for \<open>a\<close> and \<open>b\<close> returns and has added two nodes and an edge; on
  the graph holding the goal \<open>a\<close> the call that makes \<open>a\<close> depend on the unknown id
  \<open>ghost\<close> returns and has added the node \<open>ghost\<close> and the edge. The nodes added carry
  no goal: \<^verbatim>\<open>get\<close> raises KeyError on them, and so does the next readiness pass.
\<close>

theorem add_dependency_unknown_id_returns:
  "\<not> has_node empty_graph ''a'' \<and> \<not> has_node empty_graph ''b''
   \<and> add_dependency empty_graph ''a'' ''b'' =
       (Returned (), \<lparr>nodes = [(''b'', None), (''a'', None)], edges = [(''b'', ''a'')]\<rparr>)
   \<and> get (snd (add_dependency empty_graph ''a'' ''b'')) ''a'' = Inl (KeyError ''goal'')
   \<and> has_node graph_a ''a'' \<and> \<not> has_node graph_a ''ghost''
   \<and> add_dependency graph_a ''a'' ''ghost'' =
       (Returned (), \<lparr>nodes = nodes graph_a @ [(''ghost'', None)], edges = [(''ghost'', ''a'')]\<rparr>)
   \<and> get (snd (add_dependency graph_a ''a'' ''ghost'')) ''ghost'' = Inl (KeyError ''goal'')
   \<and> fst (recompute_readiness (snd (add_dependency graph_a ''a'' ''ghost'')))
        = Raised (KeyError ''goal'')"
  by code_simp

subsection \<open>The readiness pass, step by step\<close>

lemma get_assign_status:
  "get (assign_status g n gl s) m = (if m = n then Inr (gl\<lparr>status := s\<rparr>) else get g m)"
  by (simp add: get_def assign_status_def AList.update_conv')

lemma edges_assign_status: "edges (assign_status g n gl s) = edges g"
  by (simp add: assign_status_def)

lemma predecessors_assign_status: "predecessors (assign_status g n gl s) m = predecessors g m"
  by (simp add: predecessors_def edges_assign_status)

lemma get_Inr_map_of: "get g n = Inr gl \<longleftrightarrow> map_of (nodes g) n = Some (Some gl)"
  by (auto simp: get_def split: option.splits)

lemma keys_assign_status:
  "get g n = Inr gl \<Longrightarrow> map fst (nodes (assign_status g n gl' s)) = map fst (nodes g)"
proof -
  assume "get g n = Inr gl"
  then have "map_of (nodes g) n = Some (Some gl)" by (simp add: get_Inr_map_of)
  then have "n \<in> set (map fst (nodes g))"
    by (metis map_of_eq_None_iff option.distinct(1) set_map)
  then show ?thesis by (simp add: assign_status_def AList.update_keys)
qed

lemma assign_status_same: "get g n = Inr gl \<Longrightarrow> assign_status g n gl (status gl) = g"
  by (simp add: assign_status_def get_Inr_map_of AList.update_triv)

lemma assign_status_eq_iff:
  assumes "get g n = Inr gl"
  shows "assign_status g n gl s = g \<longleftrightarrow> status gl = s"
proof
  assume "assign_status g n gl s = g"
  then have "get (assign_status g n gl s) n = Inr gl" using assms by simp
  then have "gl\<lparr>status := s\<rparr> = gl" by (simp add: get_assign_status)
  then have "status (gl\<lparr>status := s\<rparr>) = status gl" by simp
  then show "status gl = s" by simp
next
  assume "status gl = s"
  with assign_status_same [OF assms] show "assign_status g n gl s = g" by simp
qed

lemma all_done_cong:
  "(\<And>p. p \<in> set ps \<Longrightarrow> done_view h p = done_view g p) \<Longrightarrow> all_done h ps = all_done g ps"
proof (induction ps)
  case Nil
  show ?case by simp
next
  case (Cons p ps)
  have "done_view h p = done_view g p" by (rule Cons.prems) simp
  moreover have "all_done h ps = all_done g ps" by (rule Cons.IH) (simp add: Cons.prems)
  ultimately show ?case
    by (auto simp: done_view_def split: sum.splits)
qed

lemma done_view_assign_status:
  assumes "get g n = Inr gl" and "status gl \<noteq> DONE" and "s \<noteq> DONE"
  shows "done_view (assign_status g n gl s) p = done_view g p"
  using assms by (simp add: done_view_def get_assign_status)

lemma all_done_assign_status:
  assumes "get g n = Inr gl" and "status gl \<noteq> DONE" and "s \<noteq> DONE"
  shows "all_done (assign_status g n gl s) ps = all_done g ps"
  by (rule all_done_cong) (rule done_view_assign_status [OF assms])

text \<open>The step writes a status that is not DONE to a goal that is not DONE, or nothing.\<close>

lemma recompute_step_Inr:
  assumes "recompute_step g n = Inr g'"
  shows "g' = g \<or> (\<exists>gl s. get g n = Inr gl \<and> status gl \<notin> {IN_PROGRESS, DONE, FAILED}
            \<and> all_done g (predecessors g n) = Inr (s = READY) \<and> s \<in> {READY, PENDING}
            \<and> g' = assign_status g n gl s)"
  using assms
  by (auto simp: recompute_step_def split: sum.splits if_splits bool.splits)

lemma recompute_step_fix_iff:
  "recompute_step g n = Inr g \<longleftrightarrow>
     (\<exists>gl. get g n = Inr gl \<and>
        (status gl \<in> {IN_PROGRESS, DONE, FAILED}
         \<or> all_done g (predecessors g n) = Inr True \<and> status gl = READY
         \<or> all_done g (predecessors g n) = Inr False \<and> status gl = PENDING))"
  by (auto simp: recompute_step_def assign_status_eq_iff split: sum.splits bool.splits)

lemma recompute_step_after:
  assumes g': "g' = assign_status g n gl s" and gl: "get g n = Inr gl"
    and ns: "status gl \<notin> {IN_PROGRESS, DONE, FAILED}" and s: "s \<in> {READY, PENDING}"
    and ad: "all_done g (predecessors g n) = Inr (s = READY)"
  shows "recompute_step g' n = Inr g'"
    and "recompute_step g m = Inr g \<Longrightarrow> recompute_step g' m = Inr g'"
proof -
  have nd: "status gl \<noteq> DONE" "s \<noteq> DONE" using ns s by auto
  have ad': "all_done g' (predecessors g' k) = all_done g (predecessors g k)" for k
    by (simp add: g' predecessors_assign_status all_done_assign_status [OF gl nd])
  have get': "get g' k = (if k = n then Inr (gl\<lparr>status := s\<rparr>) else get g k)" for k
    by (simp add: g' get_assign_status)
  show n: "recompute_step g' n = Inr g'"
    using s ad by (auto simp: recompute_step_fix_iff get' ad')
  show "recompute_step g' m = Inr g'" if "recompute_step g m = Inr g"
  proof (cases "m = n")
    case True
    with n show ?thesis by simp
  next
    case False
    with that show ?thesis by (simp add: recompute_step_fix_iff get' ad')
  qed
qed

lemma recompute_step_idem: "recompute_step g n = Inr g' \<Longrightarrow> recompute_step g' n = Inr g'"
  using recompute_step_Inr [of g n g'] recompute_step_after(1) by blast

lemma recompute_step_keeps_fix:
  "recompute_step g n = Inr g' \<Longrightarrow> recompute_step g m = Inr g \<Longrightarrow> recompute_step g' m = Inr g'"
  using recompute_step_Inr [of g n g'] recompute_step_after(2) by blast

lemma recompute_loop_fix:
  "recompute_loop g ns = (e, g1) \<Longrightarrow> (\<And>m. m \<in> M \<Longrightarrow> recompute_step g m = Inr g) \<Longrightarrow>
     recompute_loop g1 ns = (e, g1) \<and> (\<forall>m\<in>M. recompute_step g1 m = Inr g1)"
proof (induction ns arbitrary: g M)
  case Nil
  then show ?case by simp
next
  case (Cons n ns)
  show ?case
  proof (cases "recompute_step g n")
    case (Inl x)
    with Cons.prems show ?thesis by auto
  next
    case (Inr g')
    with Cons.prems(1) have loop: "recompute_loop g' ns = (e, g1)" by simp
    have stay: "recompute_step g' m = Inr g'" if "m \<in> insert n M" for m
      using that recompute_step_idem [OF Inr] recompute_step_keeps_fix [OF Inr Cons.prems(2)]
      by auto
    have "recompute_loop g1 ns = (e, g1) \<and> (\<forall>m\<in>insert n M. recompute_step g1 m = Inr g1)"
      by (rule Cons.IH [OF loop]) (rule stay)
    then show ?thesis by simp
  qed
qed

subsection \<open>The pass reads only the shape of the graph and which goals are DONE\<close>

lemma has_node_keys: "has_node g n \<longleftrightarrow> n \<in> set (map fst (nodes g))"
  by (simp add: has_node_def map_of_eq_None_iff)

lemma sweep_cong:
  assumes "edges h = edges g" and "map fst (nodes h) = map fst (nodes g)"
  shows "sweep h im zero ns = sweep g im zero ns"
proof (induction ns arbitrary: im zero)
  case Nil
  show ?case by simp
next
  case (Cons n ns)
  have "has_node h n = has_node g n" "neighbors h n = neighbors g n"
    using assms by (simp_all add: has_node_keys neighbors_def)
  with Cons.IH show ?case by (simp split: sum.splits)
qed

lemma generations_cong:
  "edges h = edges g \<Longrightarrow> map fst (nodes h) = map fst (nodes g) \<Longrightarrow>
     generations h im zero = generations g im zero"
proof (induction g im zero rule: generations.induct)
  case (1 g im zero)
  note sw = sweep_cong [OF "1.prems", of im "[]" zero]
  show ?case
  proof (cases "zero = []")
    case True
    then show ?thesis by (simp add: generations_empty)
  next
    case False
    show ?thesis
    proof (cases "sweep g im [] zero")
      case (Inl e)
      with False sw show ?thesis by (simp add: generations_raise)
    next
      case (Inr p)
      obtain im' zero' where p: "p = (im', zero')" by (cases p)
      have "generations h im' zero' = generations g im' zero'"
        using "1.IH" [OF False Inr p [symmetric]] "1.prems" by simp
      with False sw Inr p show ?thesis by (simp add: generations_yield)
    qed
  qed
qed

lemma topological_sort_cong:
  assumes "edges h = edges g" and "map fst (nodes h) = map fst (nodes g)"
  shows "topological_sort h = topological_sort g"
  using assms
  by (simp add: topological_sort_def indegree_map_def zero_indegree_def in_degree_def
      generations_cong [OF assms])

lemma recompute_step_shape:
  assumes "recompute_step g n = Inr g'"
  shows "edges g' = edges g" and "map fst (nodes g') = map fst (nodes g)"
proof -
  from recompute_step_Inr [OF assms] consider "g' = g"
    | gl s where "get g n = Inr gl" "g' = assign_status g n gl s"
    by blast
  then have "edges g' = edges g \<and> map fst (nodes g') = map fst (nodes g)"
  proof cases
    case 1
    then show ?thesis by simp
  next
    case 2
    from keys_assign_status [OF 2(1), of gl s] 2(2) show ?thesis
      by (simp add: edges_assign_status)
  qed
  then show "edges g' = edges g" and "map fst (nodes g') = map fst (nodes g)"
    by simp_all
qed

lemma recompute_loop_shape:
  "recompute_loop g ns = (e, g') \<Longrightarrow>
     edges g' = edges g \<and> map fst (nodes g') = map fst (nodes g)"
proof (induction ns arbitrary: g)
  case Nil
  then show ?case by simp
next
  case (Cons n ns)
  show ?case
  proof (cases "recompute_step g n")
    case (Inl x)
    with Cons.prems show ?thesis by simp
  next
    case (Inr g1)
    with Cons.prems have "recompute_loop g1 ns = (e, g')" by simp
    from Cons.IH [OF this] recompute_step_shape [OF Inr] show ?thesis by simp
  qed
qed

text \<open>
  C4. \<^verbatim>\<open>recompute_readiness\<close> is idempotent: a second call right after the first ends the
  same way and leaves the graph of the first call, every goal with the same status. This
  holds for every graph, also when the call raises (on a cycle or on a node without
  goal).
\<close>

theorem recompute_readiness_idempotent:
  "recompute_readiness (snd (recompute_readiness g)) = recompute_readiness g"
proof -
  obtain order stop where ts: "topological_sort g = (order, stop)"
    by (cases "topological_sort g")
  obtain e g1 where loop: "recompute_loop g order = (e, g1)"
    by (cases "recompute_loop g order")
  have snd1: "snd (recompute_readiness g) = g1"
    using ts loop by (simp add: recompute_readiness_def split: option.splits)
  have "recompute_loop g1 order = (e, g1)"
    using recompute_loop_fix [OF loop, of "{}"] by simp
  moreover have "topological_sort g1 = (order, stop)"
    using recompute_loop_shape [OF loop] ts topological_sort_cong [of g1 g] by simp
  ultimately have "recompute_readiness g1 = recompute_readiness g"
    using ts loop by (simp add: recompute_readiness_def)
  with snd1 show ?thesis by simp
qed




lemma snd_next_batch: "snd (next_batch g k) = snd (ready_goals g)"
  by (simp add: next_batch_def split: prod.splits outcome.splits)

subsection \<open>The pass on a populated graph\<close>

lemma goals_present_get:
  assumes "goals_present g" and "has_node g n"
  shows "\<exists>goal. get g n = Inr goal"
proof -
  from assms(2) obtain a where a: "map_of (nodes g) n = Some a"
    by (auto simp: has_node_def)
  then have "(n, a) \<in> set (nodes g)" by (rule map_of_SomeD)
  with assms(1) have "a \<noteq> None"
    by (auto simp: goals_present_def list_all_iff)
  with a show ?thesis by (auto simp: get_def)
qed

lemma goals_present_predecessor:
  assumes "goals_present g" and "p \<in> set (predecessors g n)"
  shows "has_node g p"
  using assms by (auto simp: goals_present_def list_all_iff predecessors_def)

lemma all_done_total:
  "(\<And>p. p \<in> set ps \<Longrightarrow> \<exists>goal. get g p = Inr goal) \<Longrightarrow>
     all_done g ps = Inr (list_all (dependency_done g) ps)"
proof (induction ps)
  case Nil
  show ?case by simp
next
  case (Cons p ps)
  from Cons.prems [of p] obtain goal where goal: "get g p = Inr goal" by auto
  have "all_done g ps = Inr (list_all (dependency_done g) ps)"
    by (rule Cons.IH) (simp add: Cons.prems)
  with goal show ?case by (simp add: dependency_done_def [of g p])
qed

lemma all_done_present:
  assumes "goals_present g"
  shows "all_done g (predecessors g n) = Inr (list_all (dependency_done g) (predecessors g n))"
  by (rule all_done_total)
     (rule goals_present_get [OF assms goals_present_predecessor [OF assms]])

lemma recompute_step_present:
  assumes "goals_present g" and "get g n = Inr goal"
  shows "recompute_step g n = Inr (assign_status g n goal (readiness g n goal))"
proof (cases "status goal \<in> {IN_PROGRESS, DONE, FAILED}")
  case True
  then have "readiness g n goal = status goal" by (simp add: readiness_def)
  with assign_status_same [OF assms(2)] True assms(2) show ?thesis
    by (simp add: recompute_step_def)
next
  case False
  with assms(2) all_done_present [OF assms(1), of n] show ?thesis
    by (simp add: recompute_step_def readiness_def)
qed

lemma set_update_subset: "set (AList.update k v al) \<subseteq> insert (k, v) (set al)"
  by (induction al) auto

lemma goals_present_assign_status:
  assumes "goals_present g" and "get g n = Inr goal"
  shows "goals_present (assign_status g n goal' s)"
proof -
  have keys: "map fst (nodes (assign_status g n goal' s)) = map fst (nodes g)"
    by (rule keys_assign_status [OF assms(2)])
  have hn: "has_node (assign_status g n goal' s) m = has_node g m" for m
    by (simp add: has_node_keys keys)
  have "set (nodes (assign_status g n goal' s))
      \<subseteq> insert (n, Some (goal'\<lparr>status := s\<rparr>)) (set (nodes g))"
    by (simp add: assign_status_def set_update_subset)
  with assms(1) show ?thesis
    by (auto simp: goals_present_def list_all_iff hn edges_assign_status)
qed

lemma dependency_done_assign_readiness:
  assumes "get g n = Inr goal"
  shows "dependency_done (assign_status g n goal (readiness g n goal)) p = dependency_done g p"
  using assms
  by (auto simp: dependency_done_def get_assign_status readiness_def)

lemma readiness_assign_readiness:
  assumes "get g n = Inr goal"
  shows "readiness (assign_status g n goal (readiness g n goal)) m gm
         = readiness g m gm"
proof -
  define g' where "g' = assign_status g n goal (readiness g n goal)"
  have dd: "dependency_done g' = dependency_done g"
    unfolding g'_def by (rule ext) (rule dependency_done_assign_readiness [OF assms])
  have pr: "predecessors g' m = predecessors g m"
    unfolding g'_def by (rule predecessors_assign_status)
  have "readiness g' m gm = readiness g m gm"
    by (simp add: readiness_def [of g' m gm] readiness_def [of g m gm] dd pr)
  then show ?thesis by (simp add: g'_def)
qed

lemma readiness_idem:
  "readiness g n (goal\<lparr>status := readiness g n goal\<rparr>) = readiness g n goal"
  by (simp add: readiness_def)

lemma readiness_status_cong:
  "status a = status b \<Longrightarrow> readiness g n a = readiness g n b"
  by (simp add: readiness_def)

subsection \<open>The iterator yields every node of a graph it finds acyclic\<close>

lemma relax_keys:
  "relax im zero cs = Inr (im', zero') \<Longrightarrow>
     fst ` set im \<union> set zero \<subseteq> fst ` set im' \<union> set zero'"
proof (induction cs arbitrary: im zero)
  case Nil
  then show ?case by simp
next
  case (Cons c cs)
  from Cons.prems obtain d where d: "map_of im c = Some d"
    by (cases "map_of im c") simp_all
  show ?case
  proof (cases "d - 1 = 0")
    case True
    with Cons.prems d have "relax (AList.delete c im) (zero @ [c]) cs = Inr (im', zero')"
      by simp
    from Cons.IH [OF this]
    have "fst ` set (AList.delete c im) \<union> set (zero @ [c]) \<subseteq> fst ` set im' \<union> set zero'" .
    moreover have "fst ` set im \<subseteq> insert c (fst ` set (AList.delete c im))"
      by (auto simp: AList.delete_eq)
    ultimately show ?thesis by auto
  next
    case False
    with Cons.prems d have "relax (AList.update c (d - 1) im) zero cs = Inr (im', zero')"
      by simp
    from Cons.IH [OF this] show ?thesis by (auto simp: AList.dom_update)
  qed
qed

lemma sweep_keys:
  "sweep g im zero ns = Inr (im', zero') \<Longrightarrow>
     fst ` set im \<union> set zero \<subseteq> fst ` set im' \<union> set zero'"
proof (induction ns arbitrary: im zero)
  case Nil
  then show ?case by simp
next
  case (Cons n ns)
  from Cons.prems obtain im1 zero1 where
    r: "relax im zero (neighbors g n) = Inr (im1, zero1)" and
    s: "sweep g im1 zero1 ns = Inr (im', zero')"
    by (auto split: if_splits sum.splits)
  from relax_keys [OF r] Cons.IH [OF s] show ?case by blast
qed

lemma sweep_nodes: "sweep g im zero ns = Inr r \<Longrightarrow> n \<in> set ns \<Longrightarrow> has_node g n"
  by (induction ns arbitrary: im zero) (auto split: if_splits sum.splits)

lemma generations_cover:
  "snd (generations g im zero) = None \<Longrightarrow>
     fst ` set im \<union> set zero \<subseteq> set (fst (generations g im zero))
     \<and> (\<forall>n\<in>set (fst (generations g im zero)). has_node g n)"
proof (induction g im zero rule: generations.induct)
  case (1 g im zero)
  show ?case
  proof (cases "zero = []")
    case True
    with "1.prems" show ?thesis by (simp add: generations_empty split: if_splits)
  next
    case False
    show ?thesis
    proof (cases "sweep g im [] zero")
      case (Inl e)
      with False "1.prems" show ?thesis by (simp add: generations_raise)
    next
      case (Inr p)
      obtain im' zero' where p: "p = (im', zero')" by (cases p)
      have unfold: "generations g im zero =
          (zero @ fst (generations g im' zero'), snd (generations g im' zero'))"
        using False Inr p by (simp add: generations_yield)
      with "1.prems" have "snd (generations g im' zero') = None" by simp
      from "1.IH" [OF False Inr p [symmetric] this]
      have ih: "fst ` set im' \<union> set zero' \<subseteq> set (fst (generations g im' zero'))"
        "\<forall>n\<in>set (fst (generations g im' zero')). has_node g n" by simp_all
      from sweep_keys [of g im "[]" zero im' zero'] Inr p
      have "fst ` set im \<subseteq> fst ` set im' \<union> set zero'" by simp
      moreover have "\<forall>n\<in>set zero. has_node g n"
        using sweep_nodes [of g im "[]" zero p] Inr by blast
      ultimately have "fst ` set im \<union> set zero
            \<subseteq> set zero \<union> set (fst (generations g im' zero'))"
        and "\<forall>n\<in>set zero \<union> set (fst (generations g im' zero')). has_node g n"
        using ih by blast+
      then show ?thesis by (simp add: unfold)
    qed
  qed
qed

lemma topological_sort_cover:
  assumes "snd (topological_sort g) = None"
  shows "set (fst (topological_sort g)) = {n. has_node g n}"
proof -
  have "map fst (indegree_map g) = filter (\<lambda>v. in_degree g v > 0) (map fst (nodes g))"
    by (simp add: indegree_map_def comp_def)
  then have "set (map fst (indegree_map g))
      = {v \<in> set (map fst (nodes g)). in_degree g v > 0}"
    by (simp only: set_filter)
  moreover have "set (zero_indegree g) = {v \<in> set (map fst (nodes g)). in_degree g v = 0}"
    by (simp only: zero_indegree_def set_filter)
  moreover have "0 \<le> in_degree g v" for v
    by (simp add: in_degree_def)
  ultimately have "set (map fst (indegree_map g)) \<union> set (zero_indegree g)
      = set (map fst (nodes g))"
    by (auto simp: order_le_less)
  then have "fst ` set (indegree_map g) \<union> set (zero_indegree g) = set (map fst (nodes g))"
    by simp
  with generations_cover [of g "indegree_map g" "zero_indegree g"] assms
  show ?thesis
    by (auto simp: topological_sort_def has_node_keys)
qed

lemma is_dag_True: "is_directed_acyclic_graph g = Inr True \<longleftrightarrow> snd (topological_sort g) = None"
  by (auto simp: is_directed_acyclic_graph_def has_cycle_def split: option.splits error.splits)

lemma recompute_loop_present:
  "goals_present g \<Longrightarrow> (\<And>n. n \<in> set ns \<Longrightarrow> has_node g n) \<Longrightarrow>
     \<exists>g'. recompute_loop g ns = (None, g') \<and> goals_present g'
       \<and> (\<forall>m gm. get g m = Inr gm \<longrightarrow>
             get g' m = Inr (gm\<lparr>status := (if m \<in> set ns then readiness g m gm else status gm)\<rparr>))"
proof (induction ns arbitrary: g)
  case Nil
  then show ?case by simp
next
  case (Cons n ns)
  from goals_present_get [OF Cons.prems(1)] Cons.prems(2) [of n]
  obtain goal where goal: "get g n = Inr goal" by auto
  define r where "r = readiness g n goal"
  define g1 where "g1 = assign_status g n goal r"
  have step: "recompute_step g n = Inr g1"
    unfolding g1_def r_def by (rule recompute_step_present [OF Cons.prems(1) goal])
  have p1: "goals_present g1"
    unfolding g1_def by (rule goals_present_assign_status [OF Cons.prems(1) goal])
  have keys: "map fst (nodes g1) = map fst (nodes g)"
    unfolding g1_def by (rule keys_assign_status [OF goal])
  have hn: "has_node g1 m" if "m \<in> set ns" for m
    using Cons.prems(2) [of m] that by (simp add: has_node_keys keys)
  have get1: "get g1 m = (if m = n then Inr (goal\<lparr>status := r\<rparr>) else get g m)" for m
    unfolding g1_def by (rule get_assign_status)
  have rd: "readiness g1 m gm = readiness g m gm" for m gm
    unfolding g1_def r_def by (rule readiness_assign_readiness [OF goal])
  from Cons.IH [OF p1 hn] obtain g' where
    loop: "recompute_loop g1 ns = (None, g')" and p': "goals_present g'" and
    ih: "\<And>m gm. get g1 m = Inr gm \<Longrightarrow>
           get g' m = Inr (gm\<lparr>status := (if m \<in> set ns then readiness g1 m gm else status gm)\<rparr>)"
    by blast
  have "get g' m = Inr (gm\<lparr>status := (if m \<in> set (n # ns) then readiness g m gm else status gm)\<rparr>)"
    if gm: "get g m = Inr gm" for m gm
  proof (cases "m = n")
    case True
    with gm goal have eq: "gm = goal" by simp
    have "get g1 n = Inr (goal\<lparr>status := r\<rparr>)" by (simp add: get1)
    from ih [OF this] have "get g' n = Inr (goal\<lparr>status := r\<rparr>)"
      by (simp add: rd) (simp add: r_def readiness_idem)
    with True eq show ?thesis by (simp add: r_def)
  next
    case False
    with gm have "get g1 m = Inr gm" by (simp add: get1)
    from ih [OF this] False show ?thesis by (simp add: rd)
  qed
  with step loop p' show ?case by auto
qed

lemma recompute_readiness_present:
  assumes dag: "is_directed_acyclic_graph g = Inr True" and present: "goals_present g"
  shows "\<exists>g'. recompute_readiness g = (Returned (), g') \<and> goals_present g'
            \<and> edges g' = edges g \<and> map fst (nodes g') = map fst (nodes g)
            \<and> (\<forall>n goal. get g n = Inr goal \<longrightarrow>
                  get g' n = Inr (goal\<lparr>status := readiness g n goal\<rparr>))"
proof -
  obtain order where ts: "topological_sort g = (order, None)"
    using dag by (cases "topological_sort g") (simp add: is_dag_True)
  have cover: "set order = {n. has_node g n}"
    using topological_sort_cover [of g] ts by simp
  then have "has_node g n" if "n \<in> set order" for n
    using that by simp
  from recompute_loop_present [OF present this] obtain g' where
    loop: "recompute_loop g order = (None, g')" and p': "goals_present g'" and
    st: "\<And>m gm. get g m = Inr gm \<Longrightarrow>
           get g' m = Inr (gm\<lparr>status := (if m \<in> set order then readiness g m gm else status gm)\<rparr>)"
    by blast
  have "get g' n = Inr (goal\<lparr>status := readiness g n goal\<rparr>)" if "get g n = Inr goal" for n goal
  proof -
    from that have "has_node g n" by (simp add: has_node_def get_Inr_map_of)
    with cover have "n \<in> set order" by simp
    with st [OF that] show ?thesis by simp
  qed
  moreover have "recompute_readiness g = (Returned (), g')"
    using ts loop by (simp add: recompute_readiness_def)
  moreover note p' recompute_loop_shape [OF loop]
  ultimately show ?thesis by blast
qed

lemma two_goal_graph:
  assumes "goal_id a \<noteq> goal_id b"
  shows "add_dependency (add_goal (add_goal empty_graph a) b) (goal_id b) (goal_id a) =
     (Returned (), \<lparr>nodes = [(goal_id a, Some a), (goal_id b, Some b)],
                     edges = [(goal_id a, goal_id b)]\<rparr>)"
proof -
  define g where "g = \<lparr>nodes = [(goal_id a, Some a), (goal_id b, Some b)],
                     edges = [(goal_id a, goal_id b)]\<rparr>"
  have ae: "add_edge (add_goal (add_goal empty_graph a) b) (goal_id a) (goal_id b) = g"
    using assms
    by (simp add: g_def add_edge_def ensure_node_def has_node_def add_goal_def add_node_def
        empty_graph_def Let_def)
  have im: "indegree_map g = [(goal_id b, 1)]" and z: "zero_indegree g = [goal_id a]"
    using assms by (auto simp: g_def indegree_map_def zero_indegree_def in_degree_def)
  have s1: "sweep g [(goal_id b, 1)] [] [goal_id a] = Inr ([], [goal_id b])"
    using assms by (simp add: g_def has_node_def neighbors_def)
  have s2: "sweep g [] [] [goal_id b] = Inr ([], [])"
    using assms by (simp add: g_def has_node_def neighbors_def)
  have "generations g [] [goal_id b] = ([goal_id b], None)"
    using generations_yield [OF _ s2] by (simp add: generations_empty)
  then have "generations g [(goal_id b, 1)] [goal_id a] = ([goal_id a, goal_id b], None)"
    using generations_yield [OF _ s1] by simp
  then have "is_directed_acyclic_graph g = Inr True"
    by (simp add: is_dag_True topological_sort_def im z)
  with ae show ?thesis by (simp add: add_dependency_def g_def)
qed

subsection \<open>Two goals, one depending on the other\<close>

lemma add_dependency_Returned:
  "add_dependency g x y = (Returned (), g') \<Longrightarrow> is_directed_acyclic_graph g' = Inr True"
  by (auto simp: add_dependency_def Let_def split: sum.splits bool.splits)

lemma is_dag_cong:
  assumes "edges h = edges g" and "map fst (nodes h) = map fst (nodes g)"
  shows "is_directed_acyclic_graph h = is_directed_acyclic_graph g"
  by (simp add: is_directed_acyclic_graph_def has_cycle_def topological_sort_cong [OF assms])

lemma mark_done_present:
  assumes "get g n = Inr goal"
  shows "mark_done g n True = (Returned (), assign_status g n goal DONE)"
  using assms by (simp add: mark_done_def set_status_def)

lemma two_goals_scenario:
  assumes ne: "goal_id a \<noteq> goal_id b"
    and sa: "status a \<notin> {IN_PROGRESS, DONE, FAILED}"
    and sb: "status b \<notin> {IN_PROGRESS, DONE, FAILED}"
  shows "\<exists>g1 g2 g3 g4.
      add_dependency (add_goal (add_goal empty_graph a) b) (goal_id b) (goal_id a)
        = (Returned (), g1)
    \<and> recompute_readiness g1 = (Returned (), g2)
    \<and> get g2 (goal_id a) = Inr (a\<lparr>status := READY\<rparr>)
    \<and> get g2 (goal_id b) = Inr (b\<lparr>status := PENDING\<rparr>)
    \<and> mark_done g2 (goal_id a) True = (Returned (), g3)
    \<and> recompute_readiness g3 = (Returned (), g4)
    \<and> get g4 (goal_id b) = Inr (b\<lparr>status := READY\<rparr>)"
proof -
  define g1 where "g1 = \<lparr>nodes = [(goal_id a, Some a), (goal_id b, Some b)],
                       edges = [(goal_id a, goal_id b)]\<rparr>"
  have build: "add_dependency (add_goal (add_goal empty_graph a) b) (goal_id b) (goal_id a)
        = (Returned (), g1)"
    unfolding g1_def by (rule two_goal_graph [OF ne])
  have dag1: "is_directed_acyclic_graph g1 = Inr True"
    by (rule add_dependency_Returned [OF build])
  have p1: "goals_present g1"
    by (simp add: g1_def goals_present_def has_node_def)
  have geta: "get g1 (goal_id a) = Inr a" and getb: "get g1 (goal_id b) = Inr b"
    using ne by (simp_all add: g1_def get_def)
  have pa: "predecessors g1 (goal_id a) = []" and pb: "predecessors g1 (goal_id b) = [goal_id a]"
    using ne by (auto simp: g1_def predecessors_def)
  have ra: "readiness g1 (goal_id a) a = READY"
    using sa by (simp add: readiness_def pa)
  have rb: "readiness g1 (goal_id b) b = PENDING"
    using sa sb by (simp add: readiness_def pb dependency_done_def [of g1] geta)
  from recompute_readiness_present [OF dag1 p1] obtain g2 where
    r2: "recompute_readiness g1 = (Returned (), g2)" and p2: "goals_present g2" and
    e2: "edges g2 = edges g1" and k2: "map fst (nodes g2) = map fst (nodes g1)" and
    st2: "\<And>n goal. get g1 n = Inr goal \<Longrightarrow>
            get g2 n = Inr (goal\<lparr>status := readiness g1 n goal\<rparr>)"
    by blast
  have a2: "get g2 (goal_id a) = Inr (a\<lparr>status := READY\<rparr>)"
    using st2 [OF geta] by (simp add: ra)
  have b2: "get g2 (goal_id b) = Inr (b\<lparr>status := PENDING\<rparr>)"
    using st2 [OF getb] by (simp add: rb)
  define g3 where "g3 = assign_status g2 (goal_id a) (a\<lparr>status := READY\<rparr>) DONE"
  have m3: "mark_done g2 (goal_id a) True = (Returned (), g3)"
    unfolding g3_def by (rule mark_done_present [OF a2])
  have p3: "goals_present g3"
    unfolding g3_def by (rule goals_present_assign_status [OF p2 a2])
  have e3: "edges g3 = edges g1"
    by (simp add: g3_def edges_assign_status e2)
  have k3: "map fst (nodes g3) = map fst (nodes g1)"
    using keys_assign_status [OF a2, of "a\<lparr>status := READY\<rparr>" DONE] by (simp add: g3_def k2)
  have dag3: "is_directed_acyclic_graph g3 = Inr True"
    using is_dag_cong [OF e3 k3] dag1 by simp
  have a3: "get g3 (goal_id a) = Inr (a\<lparr>status := DONE\<rparr>)"
    by (simp add: g3_def get_assign_status)
  have b3: "get g3 (goal_id b) = Inr (b\<lparr>status := PENDING\<rparr>)"
    using ne b2 by (simp add: g3_def get_assign_status)
  have pb3: "predecessors g3 (goal_id b) = [goal_id a]"
    using pb by (simp add: predecessors_def e3)
  have rb3: "readiness g3 (goal_id b) (b\<lparr>status := PENDING\<rparr>) = READY"
    by (simp add: readiness_def pb3 dependency_done_def [of g3] a3)
  from recompute_readiness_present [OF dag3 p3] obtain g4 where
    r4: "recompute_readiness g3 = (Returned (), g4)" and
    st4: "\<And>n goal. get g3 n = Inr goal \<Longrightarrow>
            get g4 n = Inr (goal\<lparr>status := readiness g3 n goal\<rparr>)"
    by blast
  have b4: "get g4 (goal_id b) = Inr (b\<lparr>status := READY\<rparr>)"
    using st4 [OF b3] by (simp add: rb3)
  from build r2 a2 b2 m3 r4 b4 show ?thesis by blast
qed

subsection \<open>The goals that ready\_goals returns\<close>







text \<open>
  C3. The readiness rule holds on populated graphs (\<open>recompute_readiness_present\<close>,
  \<open>two_goals_scenario\<close>), not on every acyclic graph: the goal \<open>c\<close> is READY after a
  first pass; \<^verbatim>\<open>add_dependency('c', 'ghost')\<close> with the unknown id \<open>ghost\<close> returns and
  leaves an acyclic graph in which \<open>c\<close> has the dependency \<open>ghost\<close>, which is not DONE.
  The next \<^verbatim>\<open>recompute_readiness\<close> visits \<open>ghost\<close> first, raises KeyError on its missing
  goal and leaves \<open>c\<close> READY, where the rule gives PENDING.
\<close>

theorem recompute_readiness_stops_at_node_without_goal:
  "get graph_c_ready ''c'' = Inr ((new_goal ''c'' ''C'')\<lparr>status := READY\<rparr>)
   \<and> fst (add_dependency graph_c_ready ''c'' ''ghost'') = Returned ()
   \<and> is_directed_acyclic_graph graph_c_ghost = Inr True
   \<and> predecessors graph_c_ghost ''c'' = [''ghost'']
   \<and> get graph_c_ghost ''ghost'' = Inl (KeyError ''goal'')
   \<and> dependency_done graph_c_ghost ''ghost'' = False
   \<and> recompute_readiness graph_c_ghost = (Raised (KeyError ''goal''), graph_c_ghost)
   \<and> get graph_c_ghost ''c'' = Inr ((new_goal ''c'' ''C'')\<lparr>status := READY\<rparr>)
   \<and> readiness graph_c_ghost ''c'' ((new_goal ''c'' ''C'')\<lparr>status := READY\<rparr>) = PENDING"
  by code_simp

text \<open>
  C10. \<^verbatim>\<open>next_batch\<close> and \<^verbatim>\<open>ready_goals\<close> leave the graph that \<^verbatim>\<open>recompute_readiness\<close>
  leaves (\<open>ready_goals_recompute_readiness\<close>, for every graph), and on a populated graph
  the list returned is the set of the goals that are READY after the pass
  (\<open>ready_goals_present\<close>). On an acyclic graph with a node without goal no list is
  returned: with the goal \<open>a\<close> and the edge between the unknown ids \<open>x\<close> and \<open>y\<close>, the
  pass sets \<open>a\<close> READY and then raises KeyError at \<open>x\<close>, in \<^verbatim>\<open>ready_goals\<close> and in
  \<^verbatim>\<open>next_batch\<close>.
\<close>

theorem ready_goals_raises_at_node_without_goal:
  "is_directed_acyclic_graph graph_a_xy = Inr True
   \<and> nodes graph_a_xy = [(''a'', Some (new_goal ''a'' ''A'')), (''x'', None), (''y'', None)]
   \<and> edges graph_a_xy = [(''x'', ''y'')]
   \<and> fst (ready_goals graph_a_xy) = Raised (KeyError ''goal'')
   \<and> fst (next_batch graph_a_xy 1) = Raised (KeyError ''goal'')
   \<and> get (snd (next_batch graph_a_xy 1)) ''a'' = Inr ((new_goal ''a'' ''A'')\<lparr>status := READY\<rparr>)
   \<and> snd (next_batch graph_a_xy 1) = snd (recompute_readiness graph_a_xy)"
  by code_simp

text \<open>
  C2. \<^verbatim>\<open>mark_done\<close> sets the status without looking at the present one: on the graph
  whose goal \<open>a\<close> is DONE, \<^verbatim>\<open>mark_done('a', False)\<close> returns and leaves \<open>a\<close> FAILED.
\<close>

theorem mark_done_overwrites_done:
  "get graph_a_done ''a'' = Inr ((new_goal ''a'' ''A'')\<lparr>status := DONE\<rparr>)
   \<and> fst (mark_done graph_a_done ''a'' False) = Returned ()
   \<and> get (snd (mark_done graph_a_done ''a'' False)) ''a''
        = Inr ((new_goal ''a'' ''A'')\<lparr>status := FAILED\<rparr>)"
  by code_simp

section \<open>Properties of the planner\<close>


















section \<open>Properties of the store\<close>

lemma filter_update_other:
  "\<not> P (k, v) \<Longrightarrow> (\<And>w. \<not> P (k, w)) \<Longrightarrow> filter P (AList.update k v al) = filter P al"
  by (induction al) auto

lemma foreign_keys_persist: "foreign_keys (snd (persist py st f)) = foreign_keys f"
proof -
  have upd: "filter (\<lambda>kv. fst kv \<noteq> ''logs'' \<and> fst kv \<noteq> ''artifacts'' \<and> fst kv \<noteq> ''metrics'')
               (AList.update ''metrics'' a (AList.update ''artifacts'' b (AList.update ''logs'' c kvs)))
           = filter (\<lambda>kv. fst kv \<noteq> ''logs'' \<and> fst kv \<noteq> ''artifacts'' \<and> fst kv \<noteq> ''metrics'') kvs"
    for a b c kvs
    by (simp add: filter_update_other)
  show ?thesis
    by (auto simp: persist_def Let_def foreign_keys_def upd
        split: sum.splits disk_file.splits json.splits)
qed

lemma foreign_keys_persist_after:
  "foreign_keys (snd (snd (persist_after py st f))) = foreign_keys f"
  using foreign_keys_persist [of py st f]
  by (cases "persist py st f") (simp add: persist_after_def)

lemma foreign_keys_run_op: "foreign_keys (snd (snd (run_op py st f op))) = foreign_keys f"
  by (cases op)
     (simp_all add: set_memory_def append_log_def record_artifact_def bump_metric_def
        foreign_keys_persist_after split: option.splits json.splits sum.splits)


lemma persist_None:
  assumes "persist py st f = (None, f')"
  shows "\<exists>logs artifacts metrics. f' = Document (JDict
           (AList.update ''metrics'' metrics
             (AList.update ''artifacts'' artifacts
               (AList.update ''logs'' logs
                 (case f of Document (JDict current) \<Rightarrow> current | _ \<Rightarrow> [])))))"
  using assms by (auto simp: persist_def Let_def split: sum.splits if_splits)

lemma persist_after_None:
  assumes "fst (persist_after py st f) = None"
  shows "\<exists>logs artifacts metrics. snd (snd (persist_after py st f)) = Document (JDict
           (AList.update ''metrics'' metrics
             (AList.update ''artifacts'' artifacts
               (AList.update ''logs'' logs
                 (case f of Document (JDict current) \<Rightarrow> current | _ \<Rightarrow> [])))))"
proof -
  obtain e f' where p: "persist py st f = (e, f')" by (cases "persist py st f")
  with assms have "e = None" by (simp add: persist_after_def)
  with p persist_None [of py st f f'] show ?thesis by (simp add: persist_after_def)
qed

lemma run_op_None:
  assumes "fst (run_op py st f op) = None"
  shows "\<exists>logs artifacts metrics. snd (snd (run_op py st f op)) = Document (JDict
           (AList.update ''metrics'' metrics
             (AList.update ''artifacts'' artifacts
               (AList.update ''logs'' logs
                 (case f of Document (JDict current) \<Rightarrow> current | _ \<Rightarrow> [])))))"
proof (cases op)
  case (Set key v)
  with assms show ?thesis by (simp add: set_memory_def persist_after_None)
next
  case (AppendLog item)
  with assms show ?thesis
    by (auto simp: append_log_def persist_after_None split: option.splits json.splits)
next
  case (RecordArtifact name v)
  with assms show ?thesis
    by (auto simp: record_artifact_def persist_after_None split: option.splits json.splits)
next
  case (BumpMetric name inc)
  with assms show ?thesis
    by (auto simp: bump_metric_def persist_after_None
        split: option.splits json.splits sum.splits)
qed

text \<open>
  C9. Whatever the state, the file and the mutating operation: the entries of the
  document on disk under keys other than \<^verbatim>\<open>logs\<close>, \<^verbatim>\<open>artifacts\<close> and \<^verbatim>\<open>metrics\<close> are
  after the operation the entries of before, with the same values in the same order
  (also when the operation raises and writes nothing); and when the operation returns,
  the file is a dictionary in which every such key has the value it had on disk before,
  and is absent if it was absent.
\<close>

theorem persist_keeps_foreign_keys:
  "foreign_keys (snd (snd (run_op py st f op))) = foreign_keys f
   \<and> (fst (run_op py st f op) = None \<longrightarrow>
        (\<exists>written. snd (snd (run_op py st f op)) = Document (JDict written)
           \<and> (\<forall>k. k \<noteq> ''logs'' \<and> k \<noteq> ''artifacts'' \<and> k \<noteq> ''metrics'' \<longrightarrow>
                 map_of written k =
                   (case f of Document (JDict current) \<Rightarrow> map_of current k | _ \<Rightarrow> None))))"
proof (intro conjI impI)
  show "foreign_keys (snd (snd (run_op py st f op))) = foreign_keys f"
    by (rule foreign_keys_run_op)
next
  assume "fst (run_op py st f op) = None"
  from run_op_None [OF this] obtain logs artifacts metrics where
    w: "snd (snd (run_op py st f op)) = Document (JDict
           (AList.update ''metrics'' metrics
             (AList.update ''artifacts'' artifacts
               (AList.update ''logs'' logs
                 (case f of Document (JDict current) \<Rightarrow> current | _ \<Rightarrow> [])))))"
    by blast
  show "\<exists>written. snd (snd (run_op py st f op)) = Document (JDict written)
           \<and> (\<forall>k. k \<noteq> ''logs'' \<and> k \<noteq> ''artifacts'' \<and> k \<noteq> ''metrics'' \<longrightarrow>
                 map_of written k =
                   (case f of Document (JDict current) \<Rightarrow> map_of current k | _ \<Rightarrow> None))"
    unfolding w
    by (auto simp: AList.update_conv' split: disk_file.splits json.splits)
qed

theorem persist_keeps_foreign_keys_witness:
  "new_memory file_with_goals = new_state
   \<and> run_op plain_environment (new_memory file_with_goals) file_with_goals
        (RecordArtifact ''x'' (JInt 1))
      = (None,
         [(''logs'', JList []), (''artifacts'', JDict [(''x'', JInt 1)]), (''metrics'', JDict [])],
         Document (JDict
           [(''goals'', JList [JDict [(''id'', JStr ''g1''), (''status'', JStr ''ready'')]]),
            (''logs'', JList []),
            (''artifacts'', JDict [(''x'', JInt 1)]),
            (''metrics'', JDict [])]))
   \<and> foreign_keys (snd (snd (run_op plain_environment (new_memory file_with_goals) file_with_goals
        (RecordArtifact ''x'' (JInt 1)))))
      = [(''goals'', JList [JDict [(''id'', JStr ''g1''), (''status'', JStr ''ready'')]])]"
proof -
  have run: "run_op plain_environment (new_memory file_with_goals) file_with_goals
        (RecordArtifact ''x'' (JInt 1))
      = (None,
         [(''logs'', JList []), (''artifacts'', JDict [(''x'', JInt 1)]), (''metrics'', JDict [])],
         Document (JDict
           [(''goals'', JList [JDict [(''id'', JStr ''g1''), (''status'', JStr ''ready'')]]),
            (''logs'', JList []),
            (''artifacts'', JDict [(''x'', JInt 1)]),
            (''metrics'', JDict [])]))"
    and init: "new_memory file_with_goals = new_state"
    and fk: "foreign_keys file_with_goals
      = [(''goals'', JList [JDict [(''id'', JStr ''g1''), (''status'', JStr ''ready'')]])]"
    by code_simp+
  from persist_keeps_foreign_keys
    [of plain_environment "new_memory file_with_goals" file_with_goals "RecordArtifact ''x'' (JInt 1)"]
  have "foreign_keys (snd (snd (run_op plain_environment (new_memory file_with_goals)
          file_with_goals (RecordArtifact ''x'' (JInt 1))))) = foreign_keys file_with_goals"
    by blast
  with run init fk show ?thesis by simp
qed












end
